theory Spec2Isabelle
  imports Complex_Main "HOL-Library.Word"
begin

section \<open>Conventions of the embedding\<close>

text \<open>
  The theory embeds three parts of the audio library: the sample-format conversion and
  the chunk accumulation buffer of \<^verbatim>\<open>AudioCapture::Impl\<close>, the int16 to float
  conversion of \<^verbatim>\<open>AudioOutputStream::writeInt16\<close>, and the linear resampler of
  \<^verbatim>\<open>resampler.cpp\<close> with its C entry points.

  \<^item> A \<^verbatim>\<open>float\<close> or \<^verbatim>\<open>double\<close> is modelled by the real number it denotes and
    its arithmetic is exact: rounding to single or double precision, infinities and NaN
    are outside the model.
  \<^item> A \<^verbatim>\<open>size_t\<close> is a natural number; where the source subtracts or forms an
    index on this unsigned type the wrap-around modulo \<open>2 ^ 64\<close> is written out.
  \<^item> A read or write outside a buffer is undefined behaviour in C++; the model returns
    the fault \<open>OutOfBounds\<close> instead.
  \<^item> The resampler is the build without \<^verbatim>\<open>USE_LIBSAMPLERATE\<close> and without
    \<^verbatim>\<open>USE_RVV_OPTIMIZATION\<close>: the scalar loops are the ones that run.
\<close>

datatype fault = OutOfBounds

type_synonym 'a result = "fault + 'a"

type_synonym int16_t = "16 word"

type_synonym uint8_t = "8 word"

text \<open>Conversion of a signed integer expression to \<^verbatim>\<open>size_t\<close> (64 bits).\<close>

definition size_t :: "int \<Rightarrow> nat" where
  "size_t k = nat (k mod 2 ^ 64)"

text \<open>Conversion of a floating-point number to an integer type truncates towards zero.\<close>

definition trunc_to_int :: "real \<Rightarrow> int" where
  "trunc_to_int y = (if 0 \<le> y then \<lfloor>y\<rfloor> else \<lceil>y\<rceil>)"

text \<open>
  \<^verbatim>\<open>static_cast<size_t>(double)\<close>; out of the range of \<^verbatim>\<open>size_t\<close> the conversion
  is undefined in C++, and the model does not wrap there.
\<close>

definition static_cast_size_t :: "real \<Rightarrow> nat" where
  "static_cast_size_t y = nat (trunc_to_int y)"

text \<open>\<^verbatim>\<open>static_cast<int>(size_t)\<close>: the low 32 bits, read as two's complement.\<close>

definition static_cast_int :: "nat \<Rightarrow> int" where
  "static_cast_int n =
     (let m = int n mod 2 ^ 32 in if m < 2 ^ 31 then m else m - 2 ^ 32)"

definition read_at :: "'a list \<Rightarrow> nat \<Rightarrow> 'a result" where
  "read_at buf k = (if k < length buf then Inr (buf ! k) else Inl OutOfBounds)"

definition write_at :: "'a list \<Rightarrow> nat \<Rightarrow> 'a \<Rightarrow> 'a list result" where
  "write_at buf k v = (if k < length buf then Inr (buf[k := v]) else Inl OutOfBounds)"

section \<open>Sample-format conversion\<close>

text \<open>
  \<^verbatim>\<open>static_cast<int16_t>(float)\<close>: truncation towards zero, stored in 16 bits.
\<close>

definition static_cast_int16 :: "real \<Rightarrow> int16_t" where
  "static_cast_int16 y = word_of_int (trunc_to_int y)"

text \<open>
  The conversion inside the loop of \<^verbatim>\<open>AudioCapture::Impl::onAudioData\<close>:
  \<^verbatim>\<open>
    float sample = data[i];
    if (sample > 1.0f) sample = 1.0f;
    if (sample < -1.0f) sample = -1.0f;
    out[i] = static_cast<int16_t>(sample * 32767.0f);
  \<close>
\<close>

definition floatToInt16 :: "real \<Rightarrow> int16_t" where
  "floatToInt16 x =
     (let sample = x;
          sample = (if 1 < sample then 1 else sample);
          sample = (if sample < - 1 then - 1 else sample)
      in static_cast_int16 (sample * 32767))"

text \<open>
  The conversion inside the loop of \<^verbatim>\<open>AudioOutputStream::writeInt16\<close>:
  \<^verbatim>\<open>float_buffer_[i] = static_cast<float>(data[i]) / 32768.0f;\<close>
\<close>

definition int16ToFloat :: "int16_t \<Rightarrow> real" where
  "int16ToFloat s = real_of_int (sint s) / 32768"

section \<open>Chunk accumulation in the capture path\<close>

text \<open>
  The process-wide defaults of \<^verbatim>\<open>audio_base.hpp\<close>, read by \<^verbatim>\<open>GetConfig()\<close>.
\<close>

record AudioConfig =
  sample_rate :: int
  channels :: int
  chunk_size :: int
  capture_device :: int
  player_device :: int

text \<open>
  \<^verbatim>\<open>AudioCapture::Impl\<close>. The stream object is an external collaborator and is left out;
  of the consumer callback the record keeps whether one is registered. What the callback
  receives is returned by \<open>onAudioData\<close> as the list of delivered chunks.
\<close>

record Impl =
  user_callback :: bool
  device_index :: int
  sample_rate :: int
  channels :: int
  chunk_size :: int
  buffer :: "uint8_t list"




















section \<open>The linear resampler\<close>

text \<open>The enumeration \<^verbatim>\<open>ResampleMethod\<close> of \<^verbatim>\<open>audio_resampler.hpp\<close>.\<close>

datatype ResampleMethod =
    LINEAR_UPSAMPLE
  | LINEAR_DOWNSAMPLE
  | SRC_SINC_BEST_QUALITY
  | SRC_SINC_MEDIUM_QUALITY
  | SRC_SINC_FASTEST
  | SRC_ZERO_ORDER_HOLD
  | SRC_LINEAR

record Config =
  input_sample_rate :: int
  output_sample_rate :: int
  channels :: int
  "method" :: ResampleMethod

text \<open>
  The members \<^verbatim>\<open>config_\<close>, \<^verbatim>\<open>ratio_\<close> and \<^verbatim>\<open>initialized_\<close> of class
  \<^verbatim>\<open>Resampler\<close> (a name cannot end in an underscore here).
\<close>

record Resampler =
  config :: Config
  ratio :: real
  initialized :: bool

text \<open>The constructor \<^verbatim>\<open>Resampler::Resampler(const Config&)\<close>.\<close>

definition new_Resampler :: "Config \<Rightarrow> Resampler" where
  "new_Resampler cfg =
     \<lparr>config = cfg,
      ratio = real_of_int (output_sample_rate cfg) / real_of_int (input_sample_rate cfg),
      initialized = False\<rparr>"

fun methodRequiresLibsamplerate :: "ResampleMethod \<Rightarrow> bool" where
  "methodRequiresLibsamplerate LINEAR_UPSAMPLE = False"
| "methodRequiresLibsamplerate LINEAR_DOWNSAMPLE = False"
| "methodRequiresLibsamplerate _ = True"

text \<open>
  \<^verbatim>\<open>Resampler::initialize\<close> without libsamplerate: a method that needs the library
  falls back to the linear method of the direction of the ratio.
\<close>

definition initialize :: "Resampler \<Rightarrow> bool \<times> Resampler" where
  "initialize r =
     (if initialized r then (True, r)
      else if input_sample_rate (config r) \<le> 0 \<or> output_sample_rate (config r) \<le> 0
        then (False, r)
      else if channels (config r) \<le> 0 then (False, r)
      else
        let r1 = (if methodRequiresLibsamplerate (method (config r))
                  then r\<lparr>config := (config r)\<lparr>method :=
                         (if 1 < ratio r then LINEAR_UPSAMPLE else LINEAR_DOWNSAMPLE)\<rparr>\<rparr>
                  else r)
        in (True, r1\<lparr>initialized := True\<rparr>))"

text \<open>
  \<^verbatim>\<open>linearUpsample\<close> and \<^verbatim>\<open>linearDownsample\<close> share their two loops,
  \<^verbatim>\<open>
    for (int ch = 0; ch < config_.channels; ++ch)
        for (size_t i = 0; i < output_frames; ++i)
            output[i * config_.channels + ch] = ...;
  \<close>
  and differ in the sample that is stored. The loops are modelled once, with the
  computation of the sample as the parameter \<open>sample\<close>; a fault in it ends the loops.
\<close>

function frames_loop ::
  "(nat \<Rightarrow> real result) \<Rightarrow> int \<Rightarrow> nat \<Rightarrow> nat \<Rightarrow> nat \<Rightarrow> real list \<Rightarrow> real list result" where
  "frames_loop sample chs ch output_frames i output =
     (if i < output_frames then
        (case sample i of
           Inl e \<Rightarrow> Inl e
         | Inr v \<Rightarrow>
            (case write_at output (size_t (int i * chs + int ch)) v of
               Inl e \<Rightarrow> Inl e
             | Inr output' \<Rightarrow> frames_loop sample chs ch output_frames (Suc i) output'))
      else Inr output)"
  by pat_completeness auto
termination
  by (relation "measure (\<lambda>(sample, chs, ch, output_frames, i, output). output_frames - i)") auto

declare frames_loop.simps [simp del]

function channels_loop ::
  "(nat \<Rightarrow> nat \<Rightarrow> real result) \<Rightarrow> int \<Rightarrow> nat \<Rightarrow> nat \<Rightarrow> real list \<Rightarrow> real list result" where
  "channels_loop sample chs output_frames ch output =
     (if int ch < chs then
        (case frames_loop (sample ch) chs ch output_frames 0 output of
           Inl e \<Rightarrow> Inl e
         | Inr output' \<Rightarrow> channels_loop sample chs output_frames (Suc ch) output')
      else Inr output)"
  by pat_completeness auto
termination
  by (relation "measure (\<lambda>(sample, chs, output_frames, ch, output). nat chs - ch)") auto

declare channels_loop.simps [simp del]

text \<open>
  Lines 219-227 of \<^verbatim>\<open>linearUpsample\<close>: source position, index, fraction and the
  clamp, with \<^verbatim>\<open>num_frames - 1\<close> and \<^verbatim>\<open>num_frames - 2\<close> computed on \<^verbatim>\<open>size_t\<close>.
\<close>

definition upsample_index :: "nat \<Rightarrow> real \<Rightarrow> nat \<Rightarrow> nat \<times> real" where
  "upsample_index num_frames rt i =
     (let src_pos = real i / rt;
          src_idx = static_cast_size_t src_pos;
          frac = src_pos - real src_idx
      in if size_t (int num_frames - 1) \<le> src_idx
         then (size_t (int num_frames - 2), 1)
         else (src_idx, frac))"

text \<open>Lines 219-233 of \<^verbatim>\<open>linearUpsample\<close>: the body of the inner loop.\<close>

definition upsample_sample :: "Resampler \<Rightarrow> real list \<Rightarrow> nat \<Rightarrow> nat \<Rightarrow> nat \<Rightarrow> real result" where
  "upsample_sample r input num_frames ch i =
     (let (src_idx, frac) = upsample_index num_frames (ratio r) i in
      case read_at input (size_t (int src_idx * channels (config r) + int ch)) of
        Inl e \<Rightarrow> Inl e
      | Inr sample0 \<Rightarrow>
         (case read_at input (size_t ((int src_idx + 1) * channels (config r) + int ch)) of
            Inl e \<Rightarrow> Inl e
          | Inr sample1 \<Rightarrow> Inr (sample0 * (1 - frac) + sample1 * frac)))"

definition linearUpsample :: "Resampler \<Rightarrow> real list \<Rightarrow> nat \<Rightarrow> real list result" where
  "linearUpsample r input num_samples =
     (let num_frames = num_samples div size_t (channels (config r));
          output_frames = static_cast_size_t (real_of_int \<lceil>real num_frames * ratio r\<rceil>);
          output = replicate (size_t (int output_frames * channels (config r))) 0
      in channels_loop (upsample_sample r input num_frames) (channels (config r))
           output_frames 0 output)"

text \<open>Lines 267-281 of \<^verbatim>\<open>linearDownsample\<close>: the body of the inner loop.\<close>

definition downsample_sample :: "Resampler \<Rightarrow> real list \<Rightarrow> nat \<Rightarrow> nat \<Rightarrow> nat \<Rightarrow> real result" where
  "downsample_sample r input num_frames ch i =
     (let src_pos = real i / ratio r;
          src_idx = static_cast_size_t src_pos;
          frac = src_pos - real src_idx
      in if size_t (int num_frames - 1) \<le> src_idx
         then read_at input (size_t ((int num_frames - 1) * channels (config r) + int ch))
         else
           (case read_at input (size_t (int src_idx * channels (config r) + int ch)) of
              Inl e \<Rightarrow> Inl e
            | Inr sample0 \<Rightarrow>
               (case read_at input (size_t ((int src_idx + 1) * channels (config r) + int ch)) of
                  Inl e \<Rightarrow> Inl e
                | Inr sample1 \<Rightarrow> Inr (sample0 * (1 - frac) + sample1 * frac))))"

definition linearDownsample :: "Resampler \<Rightarrow> real list \<Rightarrow> nat \<Rightarrow> real list result" where
  "linearDownsample r input num_samples =
     (let num_frames = num_samples div size_t (channels (config r));
          output_frames = static_cast_size_t (real_of_int \<lceil>real num_frames * ratio r\<rceil>);
          output = replicate (size_t (int output_frames * channels (config r))) 0
      in channels_loop (downsample_sample r input num_frames) (channels (config r))
           output_frames 0 output)"

text \<open>The same-rate copy \<^verbatim>\<open>std::vector<float>(input, input + num_samples)\<close>.\<close>

definition copy_range :: "real list \<Rightarrow> nat \<Rightarrow> real list result" where
  "copy_range input num_samples =
     (if num_samples \<le> length input then Inr (take num_samples input) else Inl OutOfBounds)"

text \<open>
  \<^verbatim>\<open>Resampler::process(const float* input, size_t num_samples)\<close>. The list \<open>input\<close> is
  the memory behind the pointer. The second component is the resampler after the call.
\<close>

definition process_ptr :: "Resampler \<Rightarrow> real list \<Rightarrow> nat \<Rightarrow> real list result \<times> Resampler" where
  "process_ptr r input num_samples =
     (let (ok, r1) = (if \<not> initialized r then initialize r else (True, r)) in
      if \<not> ok then (Inr [], r1)
      else if num_samples = 0 then (Inr [], r1)
      else if input_sample_rate (config r1) = output_sample_rate (config r1)
        then (copy_range input num_samples, r1)
      else
        (case method (config r1) of
           LINEAR_UPSAMPLE \<Rightarrow> (linearUpsample r1 input num_samples, r1)
         | LINEAR_DOWNSAMPLE \<Rightarrow> (linearDownsample r1 input num_samples, r1)
         | _ \<Rightarrow>
            (if 1 < ratio r1 then (linearUpsample r1 input num_samples, r1)
             else (linearDownsample r1 input num_samples, r1))))"

text \<open>\<^verbatim>\<open>Resampler::process(const std::vector<float>&)\<close>.\<close>

definition process :: "Resampler \<Rightarrow> real list \<Rightarrow> real list result \<times> Resampler" where
  "process r input = process_ptr r input (length input)"


text \<open>
  The C interface of \<^verbatim>\<open>resampler.cpp\<close>. A pointer is an option: \<open>None\<close> is the null
  pointer. A failing allocation is not modelled.
\<close>

datatype ResampleMethodC =
    RESAMPLE_METHOD_LINEAR
  | RESAMPLE_METHOD_SRC_BEST_QUALITY
  | RESAMPLE_METHOD_SRC_MEDIUM_QUALITY
  | RESAMPLE_METHOD_SRC_FASTEST
  | RESAMPLE_METHOD_SRC_ZERO_ORDER_HOLD
  | RESAMPLE_METHOD_SRC_LINEAR

record ResamplerHandle =
  resampler :: "Resampler option"

definition methodCToCpp :: "ResampleMethodC \<Rightarrow> int \<Rightarrow> int \<Rightarrow> ResampleMethod" where
  "methodCToCpp m output_rate input_rate =
     (let ratio = real_of_int output_rate / real_of_int input_rate in
      case m of
        RESAMPLE_METHOD_LINEAR \<Rightarrow> (if 1 < ratio then LINEAR_UPSAMPLE else LINEAR_DOWNSAMPLE)
      | _ \<Rightarrow> (if 1 < ratio then LINEAR_UPSAMPLE else LINEAR_DOWNSAMPLE))"

definition resampler_create :: "int \<Rightarrow> int \<Rightarrow> int \<Rightarrow> ResampleMethodC \<Rightarrow> ResamplerHandle option" where
  "resampler_create input_rate output_rate chs m =
     (let cfg = \<lparr>input_sample_rate = input_rate, output_sample_rate = output_rate,
                  channels = chs, method = methodCToCpp m output_rate input_rate\<rparr>;
          (ok, r) = initialize (new_Resampler cfg)
      in if \<not> ok then None else Some \<lparr>resampler = Some r\<rparr>)"

text \<open>\<^verbatim>\<open>std::copy(result.begin(), result.end(), output)\<close> into a buffer that holds \<open>length output\<close> floats.\<close>

definition copy_to :: "real list \<Rightarrow> real list \<Rightarrow> real list result" where
  "copy_to result output =
     (if length result \<le> length output
      then Inr (result @ drop (length result) output)
      else Inl OutOfBounds)"

text \<open>
  \<^verbatim>\<open>resampler_process\<close>. The result is the returned \<^verbatim>\<open>int\<close>, the output buffer
  after the call and the handle after the call.
\<close>

definition resampler_process ::
  "ResamplerHandle option \<Rightarrow> real list option \<Rightarrow> int \<Rightarrow> real list option \<Rightarrow> int
     \<Rightarrow> (int \<times> real list option \<times> ResamplerHandle option) result" where
  "resampler_process handle input input_samples output output_capacity =
     (case (handle, input, output) of
        (Some h, Some inp, Some outp) \<Rightarrow>
          (case resampler h of
             None \<Rightarrow> Inr (- 1, output, handle)
           | Some r \<Rightarrow>
              if input_samples \<le> 0 then Inr (- 1, output, handle)
              else
                (case process_ptr r inp (size_t input_samples) of
                   (Inl e, r1) \<Rightarrow> Inl e
                 | (Inr result, r1) \<Rightarrow>
                    if output_capacity < static_cast_int (length result)
                    then Inr (- 1, output, Some (h\<lparr>resampler := Some r1\<rparr>))
                    else
                      (case copy_to result outp of
                         Inl e \<Rightarrow> Inl e
                       | Inr outp1 \<Rightarrow>
                          Inr (static_cast_int (length result), Some outp1,
                               Some (h\<lparr>resampler := Some r1\<rparr>)))))
      | _ \<Rightarrow> Inr (- 1, output, handle))"

text \<open>
  The guard of the vectorised variant \<^verbatim>\<open>Resampler::linearUpsample_RVV\<close> (lines 61-67 of
  the RVV source file). Its strip-mined loops over vector intrinsics are not modelled: they
  are the parameter \<open>vector_loops\<close>, applied to the zero-filled output.
\<close>

definition linearUpsample_RVV ::
  "Resampler \<Rightarrow> (real list \<Rightarrow> real list result) \<Rightarrow> real list \<Rightarrow> nat \<Rightarrow> real list result" where
  "linearUpsample_RVV r vector_loops input num_samples =
     (let num_frames = num_samples div size_t (channels (config r));
          output_frames = static_cast_size_t (real_of_int \<lceil>real num_frames * ratio r\<rceil>);
          output = replicate (size_t (int output_frames * channels (config r))) 0
      in if output_frames = 0 \<or> num_frames < 2 then Inr output else vector_loops output)"

text \<open>
  A resampler on which \<open>initialize\<close> has succeeded: the rates and the channel count are
  positive and the ratio is the one the constructor computed.
\<close>

definition configured :: "Resampler \<Rightarrow> bool" where
  "configured r =
     (initialized r \<and> 0 < input_sample_rate (config r) \<and> 0 < output_sample_rate (config r)
      \<and> 0 < channels (config r)
      \<and> ratio r = real_of_int (output_sample_rate (config r))
                     / real_of_int (input_sample_rate (config r)))"

text \<open>
  The interpolation as the specification words it (section 4.1), for output frame \<open>i\<close> of
  channel \<open>ch\<close> over \<open>num_frames\<close> interleaved input frames of \<open>chs\<close> channels:
  \<open>p = i / ratio\<close>, \<open>idx = floor p\<close>, \<open>frac = p - idx\<close>. When upsampling, an index
  \<open>idx \<ge> num_frames - 1\<close> is clamped to \<open>num_frames - 2\<close> with \<open>frac = 1\<close>; when
  downsampling, it yields the last input sample directly. These two definitions follow the
  specification, not the source; the source is compared with them.
\<close>

definition spec_blend :: "real list \<Rightarrow> nat \<Rightarrow> nat \<Rightarrow> nat \<Rightarrow> real \<Rightarrow> real" where
  "spec_blend input chs ch idx fr =
     input ! (idx * chs + ch) * (1 - fr) + input ! ((idx + 1) * chs + ch) * fr"

definition spec_upsample :: "real \<Rightarrow> nat \<Rightarrow> nat \<Rightarrow> real list \<Rightarrow> nat \<Rightarrow> nat \<Rightarrow> real" where
  "spec_upsample rt num_frames chs input ch i =
     (let p = real i / rt; idx = nat \<lfloor>p\<rfloor>; frac = p - real idx
      in if num_frames - 1 \<le> idx then spec_blend input chs ch (num_frames - 2) 1
         else spec_blend input chs ch idx frac)"



definition large_block :: "real list" where
  "large_block = replicate (2 ^ 30) 0"


text \<open>Two configurations used as concrete inputs.\<close>

definition up_8k_16k :: Resampler where
  "up_8k_16k = new_Resampler \<lparr>input_sample_rate = 8000, output_sample_rate = 16000,
       channels = 1, method = LINEAR_UPSAMPLE\<rparr>"


section \<open>Properties of the sample-format conversion\<close>

lemma sint_word_of_int_16:
  fixes k :: int
  assumes "- 32768 \<le> k" and "k < 32768"
  shows "sint (word_of_int k :: 16 word) = k"
  using assms by (simp add: sint_sbintrunc' signed_take_bit_int_eq_self)

lemma trunc_to_int_bounds:
  assumes "- 32767 \<le> y" and "y \<le> 32767"
  shows "- 32767 \<le> trunc_to_int y" and "trunc_to_int y \<le> 32767"
  using assms
  by (auto simp: trunc_to_int_def floor_le_iff le_floor_iff ceiling_le_iff le_ceiling_iff)

lemma floatToInt16_clamped:
  "floatToInt16 x = static_cast_int16 (max (- 1) (min 1 x) * 32767)"
  by (simp add: floatToInt16_def Let_def max_def min_def)

lemma sint_floatToInt16:
  "sint (floatToInt16 x) = trunc_to_int (max (- 1) (min 1 x) * 32767)"
proof -
  let ?y = "max (- 1) (min 1 x) * 32767"
  have "- 32767 \<le> ?y" and "?y \<le> 32767"
    by (auto simp: max_def min_def)
  then have "- 32767 \<le> trunc_to_int ?y" and "trunc_to_int ?y \<le> 32767"
    by (rule trunc_to_int_bounds)+
  then show ?thesis
    by (simp add: floatToInt16_clamped static_cast_int16_def sint_word_of_int_16)
qed



lemma roundtrip_exact:
  "sint (floatToInt16 (int16ToFloat v)) =
     (if 0 < sint v then sint v - 1 else if sint v = 0 then 0 else sint v + 1)"
proof -
  define k where "k = sint v"
  have kb: "- 32768 \<le> k" "k < 32768"
    using sint_ge[of v] sint_lt[of v] by (simp_all add: k_def)
  let ?x = "real_of_int k / 32768"
  have cl: "max (- 1) (min 1 ?x) = ?x"
    using kb by (simp add: max_def min_def)
  have y: "?x * 32767 = real_of_int k - real_of_int k / 32768"
    by (simp add: field_simps)
  have "trunc_to_int (real_of_int k - real_of_int k / 32768) =
      (if 0 < k then k - 1 else if k = 0 then 0 else k + 1)"
  proof (cases "0 < k")
    case True
    then have "\<lfloor>real_of_int k - real_of_int k / 32768\<rfloor> = k - 1"
      using kb by (intro floor_unique) (simp_all add: field_simps)
    with True show ?thesis
      by (simp add: trunc_to_int_def field_simps)
  next
    case False
    show ?thesis
    proof (cases "k = 0")
      case True
      then show ?thesis by (simp add: trunc_to_int_def)
    next
      case False
      with \<open>\<not> 0 < k\<close> have neg: "k < 0" by simp
      then have "\<lceil>real_of_int k - real_of_int k / 32768\<rceil> = k + 1"
        using kb by (intro ceiling_unique) (simp_all add: field_simps)
      with neg show ?thesis
        by (simp add: trunc_to_int_def field_simps)
    qed
  qed
  then show ?thesis
    unfolding sint_floatToInt16 int16ToFloat_def k_def[symmetric] cl y by simp
qed

text \<open>
  Claim C6. For every 16-bit value \<open>v\<close>, converting \<open>v\<close> to a float on the playback
  side (\<open>v / 32768\<close>) and back on the capture side yields \<open>v\<close>, \<open>v + 1\<close> or \<open>v - 1\<close>
  (read as integers, without wrap-around).
\<close>

theorem int16_float_roundtrip:
  "sint (floatToInt16 (int16ToFloat v)) \<in> {sint v, sint v + 1, sint v - 1}"
  by (simp add: roundtrip_exact)

section \<open>Properties of the chunk accumulation\<close>


















section \<open>Properties of the loops of the resampler\<close>

lemma size_t_id: "0 \<le> k \<Longrightarrow> k < 2 ^ 64 \<Longrightarrow> size_t k = nat k"
  by (simp add: size_t_def)

lemma size_t_le: "0 \<le> k \<Longrightarrow> size_t k \<le> nat k"
  unfolding size_t_def
  by (rule nat_mono) (rule zmod_le_nonneg_dividend)

lemma size_t_index:
  assumes "j * c + ch < n" and "n < 2 ^ 64"
  shows "size_t (int j * int c + int ch) = j * c + ch"
proof -
  have "int j * int c + int ch = int (j * c + ch)" by simp
  moreover have "int (j * c + ch) < 2 ^ 64"
    using assms by (metis less_trans of_nat_less_numeral_power_cancel_iff)
  ultimately show ?thesis
    by (simp only: size_t_id of_nat_0_le_iff nat_int)
qed

lemma index_bound:
  fixes j c ch n :: nat
  assumes "j < n" and "ch < c"
  shows "j * c + ch < n * c"
proof -
  have "j * c + ch < j * c + c" using assms by simp
  also have "\<dots> = Suc j * c" by simp
  also have "\<dots> \<le> n * c" using assms by (intro mult_le_mono1) simp
  finally show ?thesis .
qed

lemma index_div_mod:
  fixes j c ch :: nat
  assumes "ch < c"
  shows "(j * c + ch) div c = j" and "(j * c + ch) mod c = ch"
  using assms by simp_all

lemma index_eq_iff:
  fixes j c ch k :: nat
  assumes "ch < c"
  shows "k = j * c + ch \<longleftrightarrow> k mod c = ch \<and> k div c = j"
proof
  assume "k = j * c + ch"
  with assms show "k mod c = ch \<and> k div c = j" by simp
next
  assume "k mod c = ch \<and> k div c = j"
  then show "k = j * c + ch"
    using div_mult_mod_eq[of k c] by simp
qed

lemma frames_loop_correct:
  assumes chs: "0 < chs" and ch: "int ch < chs"
    and len: "length outp = output_frames * nat chs" and fit: "length outp < 2 ^ 64"
    and smp: "\<And>j. j < output_frames \<Longrightarrow> sample j = Inr (val j)"
    and i: "i \<le> output_frames"
  shows "\<exists>outp'. frames_loop sample chs ch output_frames i outp = Inr outp'
           \<and> length outp' = length outp
           \<and> (\<forall>k<length outp. outp' ! k =
                 (if k mod nat chs = ch \<and> i \<le> k div nat chs then val (k div nat chs)
                  else outp ! k))"
  using len fit i
proof (induction "output_frames - i" arbitrary: i outp)
  case 0
  then show ?case
    by (subst frames_loop.simps) (auto dest: less_mult_imp_div_less)
next
  case (Suc d)
  let ?c = "nat chs"
  have c: "chs = int ?c" "ch < ?c" using chs ch by simp_all
  from Suc have lt: "i < output_frames" by simp
  have bound: "i * ?c + ch < length outp"
    using index_bound[OF lt c(2)] Suc.prems(1) by simp
  have idx: "size_t (int i * chs + int ch) = i * ?c + ch"
    using size_t_index[OF bound Suc.prems(2)] c(1) by simp
  let ?out1 = "outp[i * ?c + ch := val i]"
  have wr: "write_at outp (size_t (int i * chs + int ch)) (val i) = Inr ?out1"
    using bound by (simp add: write_at_def idx)
  have "\<exists>outp'. frames_loop sample chs ch output_frames (Suc i) ?out1 = Inr outp'
           \<and> length outp' = length ?out1
           \<and> (\<forall>k<length ?out1. outp' ! k =
                 (if k mod ?c = ch \<and> Suc i \<le> k div ?c then val (k div ?c) else ?out1 ! k))"
    using Suc.hyps(2) Suc.prems lt by (intro Suc.hyps(1)) simp_all
  then obtain outp' where
    r: "frames_loop sample chs ch output_frames (Suc i) ?out1 = Inr outp'"
    and l: "length outp' = length outp"
    and v: "\<And>k. k < length outp \<Longrightarrow> outp' ! k =
                 (if k mod ?c = ch \<and> Suc i \<le> k div ?c then val (k div ?c) else ?out1 ! k)"
    by auto
  have step: "frames_loop sample chs ch output_frames i outp = Inr outp'"
    using lt by (subst frames_loop.simps) (simp add: smp[OF lt] wr r)
  have "outp' ! k =
      (if k mod ?c = ch \<and> i \<le> k div ?c then val (k div ?c) else outp ! k)"
    if k: "k < length outp" for k
  proof (cases "k = i * ?c + ch")
    case True
    then show ?thesis
      using v[OF k] k c(2) by simp
  next
    case False
    then have ne: "\<not> (k mod ?c = ch \<and> k div ?c = i)"
      using index_eq_iff[OF c(2), of k i] by simp
    have "outp' ! k = (if k mod ?c = ch \<and> Suc i \<le> k div ?c then val (k div ?c) else outp ! k)"
      using v[OF k] False by simp
    also have "\<dots> = (if k mod ?c = ch \<and> i \<le> k div ?c then val (k div ?c) else outp ! k)"
      using ne by (auto simp: Suc_le_eq le_less)
    finally show ?thesis .
  qed
  with step l show ?case by blast
qed

lemma channels_loop_correct:
  assumes chs: "0 < chs"
    and len: "length outp = output_frames * nat chs" and fit: "length outp < 2 ^ 64"
    and smp: "\<And>c j. c < nat chs \<Longrightarrow> j < output_frames \<Longrightarrow> sample c j = Inr (val c j)"
  shows "\<exists>outp'. channels_loop sample chs output_frames ch outp = Inr outp'
           \<and> length outp' = length outp
           \<and> (\<forall>k<length outp. outp' ! k =
                 (if ch \<le> k mod nat chs then val (k mod nat chs) (k div nat chs)
                  else outp ! k))"
  using len fit
proof (induction "nat chs - ch" arbitrary: ch outp)
  case 0
  then have ge: "nat chs \<le> ch" by simp
  then have no: "\<not> int ch < chs" by simp
  have "\<not> ch \<le> k mod nat chs" for k
  proof -
    have "k mod nat chs < nat chs" using chs by simp
    with ge show ?thesis by linarith
  qed
  then show ?case
    using no by (subst channels_loop.simps) simp
next
  case (Suc d)
  let ?c = "nat chs"
  from Suc.hyps(2) have lt: "ch < ?c" by simp
  then have lti: "int ch < chs" by simp
  have s1: "\<And>j. j < output_frames \<Longrightarrow> sample ch j = Inr (val ch j)"
    using smp[OF lt] .
  have "\<exists>outp'. frames_loop (sample ch) chs ch output_frames 0 outp = Inr outp'
           \<and> length outp' = length outp
           \<and> (\<forall>k<length outp. outp' ! k =
                 (if k mod ?c = ch \<and> 0 \<le> k div ?c then val ch (k div ?c) else outp ! k))"
    using chs lti Suc.prems(1) Suc.prems(2) s1 le0 by (rule frames_loop_correct)
  then obtain out1 where
    r1: "frames_loop (sample ch) chs ch output_frames 0 outp = Inr out1"
    and l1: "length out1 = length outp"
    and v1: "\<And>k. k < length outp \<Longrightarrow> out1 ! k =
        (if k mod ?c = ch then val ch (k div ?c) else outp ! k)"
    by auto
  have d: "d = ?c - Suc ch" using Suc.hyps(2) by simp
  have l1': "length out1 = output_frames * ?c" using l1 Suc.prems(1) by simp
  have f1: "length out1 < 2 ^ 64" using l1 Suc.prems(2) by simp
  from Suc.hyps(1)[OF d l1' f1]
  obtain outp' where
    r: "channels_loop sample chs output_frames (Suc ch) out1 = Inr outp'"
    and l: "length outp' = length out1"
    and v: "\<And>k. k < length out1 \<Longrightarrow> outp' ! k =
        (if Suc ch \<le> k mod ?c then val (k mod ?c) (k div ?c) else out1 ! k)"
    by auto
  have step: "channels_loop sample chs output_frames ch outp = Inr outp'"
    using lti by (subst channels_loop.simps) (simp add: r1 r)
  have "outp' ! k = (if ch \<le> k mod ?c then val (k mod ?c) (k div ?c) else outp ! k)"
    if k: "k < length outp" for k
  proof (cases "k mod ?c = ch")
    case True
    then show ?thesis using v[of k] v1[OF k] k l1 by simp
  next
    case False
    then have "Suc ch \<le> k mod ?c \<longleftrightarrow> ch \<le> k mod ?c" by auto
    then show ?thesis using v[of k] v1[OF k] k l1 False by simp
  qed
  with step l l1 show ?case by simp
qed

lemma linear_loops_correct:
  assumes chs: "0 < chs" and fit: "output_frames * nat chs < 2 ^ 64"
    and smp: "\<And>c j. c < nat chs \<Longrightarrow> j < output_frames \<Longrightarrow> sample c j = Inr (val c j)"
  shows "\<exists>outp. channels_loop sample chs output_frames 0
                     (replicate (size_t (int output_frames * chs)) 0) = Inr outp
           \<and> length outp = output_frames * nat chs
           \<and> (\<forall>c<nat chs. \<forall>j<output_frames. outp ! (j * nat chs + c) = val c j)"
proof -
  let ?c = "nat chs"
  have "int output_frames * chs = int (output_frames * ?c)" using chs by simp
  moreover have "int (output_frames * ?c) < 2 ^ 64"
    using fit by (metis of_nat_less_numeral_power_cancel_iff)
  ultimately have sz: "size_t (int output_frames * chs) = output_frames * ?c"
    by (simp only: size_t_id of_nat_0_le_iff nat_int)
  let ?out0 = "replicate (output_frames * ?c) (0::real)"
  from channels_loop_correct[OF chs, of ?out0 output_frames sample val 0] fit smp
  obtain outp where
    r: "channels_loop sample chs output_frames 0 ?out0 = Inr outp"
    and l: "length outp = output_frames * ?c"
    and v: "\<And>k. k < output_frames * ?c \<Longrightarrow> outp ! k = val (k mod ?c) (k div ?c)"
    by auto
  have "outp ! (j * ?c + c) = val c j" if "c < ?c" "j < output_frames" for c j
    using v[OF index_bound[OF that(2) that(1)]] that(1) by simp
  with r l show ?thesis unfolding sz by blast
qed

section \<open>The samples computed by the two interpolation loops\<close>

lemma static_cast_size_t_floor: "0 \<le> y \<Longrightarrow> static_cast_size_t y = nat \<lfloor>y\<rfloor>"
  by (simp add: static_cast_size_t_def trunc_to_int_def)

lemma static_cast_size_t_ceiling:
  "static_cast_size_t (real_of_int \<lceil>x\<rceil>) = nat \<lceil>x\<rceil>"
  by (simp add: static_cast_size_t_def trunc_to_int_def ceiling_def)

lemma upsample_index_le:
  assumes "2 \<le> num_frames"
  shows "fst (upsample_index num_frames rt i) \<le> num_frames - 2"
proof -
  have a: "size_t (int num_frames - 2) \<le> num_frames - 2"
    using size_t_le[of "int num_frames - 2"] assms by simp
  have b: "size_t (int num_frames - 1) \<le> num_frames - 1"
    using size_t_le[of "int num_frames - 1"] assms by simp
  show ?thesis
    using a b by (auto simp: upsample_index_def Let_def)
qed

lemma read_index_bound:
  fixes idx num_frames c ch :: nat
  assumes "idx < num_frames" and "ch < c" and "num_frames * c \<le> n"
  shows "size_t (int idx * int c + int ch) < n"
proof -
  have "size_t (int idx * int c + int ch) \<le> nat (int idx * int c + int ch)"
    by (rule size_t_le) simp
  also have "\<dots> = idx * c + ch"
    by (simp add: nat_add_distrib nat_mult_distrib)
  also have "\<dots> < num_frames * c"
    using assms(1,2) by (rule index_bound)
  finally show ?thesis using assms(3) by simp
qed

lemma upsample_sample_in_bounds:
  assumes nf: "2 \<le> num_frames" and chs: "0 < channels (config r)"
    and ch: "int ch < channels (config r)"
    and len: "num_frames * nat (channels (config r)) \<le> length input"
  shows "size_t (int (fst (upsample_index num_frames (ratio r) i)) * channels (config r) + int ch)
           < length input"
    and "size_t ((int (fst (upsample_index num_frames (ratio r) i)) + 1) * channels (config r) + int ch)
           < length input"
proof -
  let ?c = "nat (channels (config r))"
  let ?idx = "fst (upsample_index num_frames (ratio r) i)"
  have c: "channels (config r) = int ?c" "ch < ?c" using chs ch by simp_all
  have le: "?idx \<le> num_frames - 2" using nf by (rule upsample_index_le)
  then have 1: "?idx < num_frames" and 2: "Suc ?idx < num_frames" using nf by simp_all
  show "size_t (int ?idx * channels (config r) + int ch) < length input"
    using read_index_bound[OF 1 c(2) len] c(1) by simp
  have "size_t (int (Suc ?idx) * int ?c + int ch) < length input"
    using 2 c(2) len by (rule read_index_bound)
  then show "size_t ((int ?idx + 1) * channels (config r) + int ch) < length input"
    using c(1) by (simp add: algebra_simps)
qed

lemma upsample_sample_returns:
  assumes nf: "2 \<le> num_frames" and chs: "0 < channels (config r)"
    and ch: "int ch < channels (config r)"
    and len: "num_frames * nat (channels (config r)) \<le> length input"
  shows "\<exists>v. upsample_sample r input num_frames ch i = Inr v"
  using upsample_sample_in_bounds[OF assms, of i]
  by (simp add: upsample_sample_def read_at_def split_beta Let_def)

lemma upsample_index_one: "upsample_index 1 rt i = (2 ^ 64 - 1, 1)"
  by (simp add: upsample_index_def Let_def size_t_def)

lemma upsample_sample_one_frame:
  assumes chs: "0 < channels (config r)" and ch: "int ch < channels (config r)"
    and len: "int (length input) + channels (config r) \<le> 2 ^ 64"
  shows "upsample_sample r input 1 ch i = Inl OutOfBounds"
proof -
  let ?c = "channels (config r)"
  have "(2 ^ 64 - 1) * ?c + int ch = (2 ^ 64 - ?c + int ch) + 2 ^ 64 * (?c - 1)"
    by (simp add: algebra_simps)
  then have "((2 ^ 64 - 1) * ?c + int ch) mod 2 ^ 64 = (2 ^ 64 - ?c + int ch) mod 2 ^ 64"
    by (simp only: mod_mult_self2)
  also have "\<dots> = 2 ^ 64 - ?c + int ch"
    using chs ch len by (intro mod_pos_pos_trivial) simp_all
  finally have "size_t ((2 ^ 64 - 1) * ?c + int ch) = nat (2 ^ 64 - ?c + int ch)"
    by (simp add: size_t_def)
  moreover have "length input \<le> nat (2 ^ 64 - ?c + int ch)"
    using len by simp
  ultimately have "read_at input (size_t (int (2 ^ 64 - 1) * ?c + int ch)) = Inl OutOfBounds"
    by (simp add: read_at_def)
  then show ?thesis
    unfolding upsample_sample_def upsample_index_one by simp
qed

lemma size_t_nat: "n < 2 ^ 64 \<Longrightarrow> size_t (int n) = n"
  by (simp add: size_t_def)

lemma size_t_pred:
  assumes "k \<le> n" and "n < 2 ^ 64"
  shows "size_t (int n - int k) = n - k"
proof -
  have "int n - int k = int (n - k)" using assms(1) by simp
  moreover have "n - k < 2 ^ 64" using assms(2) by simp
  ultimately show ?thesis by (simp only: size_t_nat)
qed

lemma upsample_index_spec:
  assumes nf: "2 \<le> num_frames" and fit: "num_frames < 2 ^ 64" and rt: "0 < rt"
  shows "upsample_index num_frames rt i =
     (if num_frames - 1 \<le> nat \<lfloor>real i / rt\<rfloor> then (num_frames - 2, 1)
      else (nat \<lfloor>real i / rt\<rfloor>, real i / rt - real (nat \<lfloor>real i / rt\<rfloor>)))"
proof -
  have p: "0 \<le> real i / rt" using rt by simp
  have 1: "size_t (int num_frames - 1) = num_frames - 1"
    using size_t_pred[of 1 num_frames] nf fit by simp
  have 2: "size_t (int num_frames - 2) = num_frames - 2"
    using size_t_pred[of 2 num_frames] nf fit by simp
  show ?thesis
    by (simp add: upsample_index_def Let_def static_cast_size_t_floor[OF p] 1 2)
qed

lemma read_at_frame:
  fixes c ch j num_frames :: nat
  assumes "j < num_frames" and "ch < c" and "num_frames * c \<le> length input"
    and "length input < 2 ^ 64"
  shows "read_at input (size_t (int j * int c + int ch)) = Inr (input ! (j * c + ch))"
proof -
  have b: "j * c + ch < length input"
    using index_bound[OF assms(1,2)] assms(3) by simp
  show ?thesis
    unfolding read_at_def size_t_index[OF b assms(4)] using b by simp
qed

lemma read_at_next_frame:
  fixes c ch j num_frames :: nat
  assumes "Suc j < num_frames" and "ch < c" and "num_frames * c \<le> length input"
    and "length input < 2 ^ 64"
  shows "read_at input (size_t ((int j + 1) * int c + int ch)) = Inr (input ! ((j + 1) * c + ch))"
proof -
  have "(int j + 1) * int c + int ch = int (Suc j) * int c + int ch" by simp
  then show ?thesis
    using read_at_frame[OF assms] by (simp only: Suc_eq_plus1)
qed

lemma frames_fit:
  fixes c num_frames n :: nat
  assumes "0 < c" and "num_frames * c \<le> n" and "n < 2 ^ 64"
  shows "num_frames < 2 ^ 64"
proof -
  have "num_frames \<le> num_frames * c" using assms(1) by (cases c) simp_all
  then have "num_frames \<le> n" using assms(2) by (rule le_trans)
  then show ?thesis using assms(3) by (rule le_less_trans)
qed

lemma upsample_sample_value:
  assumes nf: "2 \<le> num_frames" and chs: "0 < channels (config r)"
    and ch: "int ch < channels (config r)"
    and len: "num_frames * nat (channels (config r)) \<le> length input"
    and fit: "length input < 2 ^ 64" and rt: "0 < ratio r"
  shows "upsample_sample r input num_frames ch i =
           Inr (spec_upsample (ratio r) num_frames (nat (channels (config r))) input ch i)"
proof -
  define c where "c = nat (channels (config r))"
  define idx where "idx = nat \<lfloor>real i / ratio r\<rfloor>"
  define fr where "fr = real i / ratio r - real idx"
  have ci: "channels (config r) = int c" and cc: "ch < c" "0 < c"
    using chs ch by (simp_all add: c_def)
  have len': "num_frames * c \<le> length input" using len by (simp add: c_def)
  have nfit: "num_frames < 2 ^ 64" using cc(2) len' fit by (rule frames_fit)
  have ui: "upsample_index num_frames (ratio r) i =
      (if num_frames - 1 \<le> idx then (num_frames - 2, 1) else (idx, fr))"
    unfolding idx_def fr_def by (rule upsample_index_spec[OF nf nfit rt])
  have sp: "spec_upsample (ratio r) num_frames c input ch i =
      (if num_frames - 1 \<le> idx then spec_blend input c ch (num_frames - 2) 1
       else spec_blend input c ch idx fr)"
    unfolding spec_upsample_def Let_def idx_def fr_def ..
  have "upsample_sample r input num_frames ch i = Inr (spec_upsample (ratio r) num_frames c input ch i)"
  proof (cases "num_frames - 1 \<le> idx")
    case True
    have a: "num_frames - 2 < num_frames" "Suc (num_frames - 2) < num_frames"
      using nf by simp_all
    show ?thesis
      unfolding upsample_sample_def ci ui sp spec_blend_def
      by (simp only: True if_True Let_def prod.case sum.case
          read_at_frame[OF a(1) cc(1) len' fit] read_at_next_frame[OF a(2) cc(1) len' fit])
  next
    case False
    then have a: "idx < num_frames" "Suc idx < num_frames" by simp_all
    show ?thesis
      unfolding upsample_sample_def ci ui sp spec_blend_def
      by (simp only: False if_False Let_def prod.case sum.case
          read_at_frame[OF a(1) cc(1) len' fit] read_at_next_frame[OF a(2) cc(1) len' fit])
  qed
  then show ?thesis by (simp only: c_def)
qed


section \<open>Correctness of the two interpolation functions\<close>

lemma size_t_channels:
  fixes c n :: nat
  assumes "0 < chs" and "nat chs \<le> n" and "n < 2 ^ 64"
  shows "size_t chs = nat chs"
proof -
  have "int (nat chs) < 2 ^ 64"
    using assms(2,3) by (metis le_less_trans of_nat_less_numeral_power_cancel_iff)
  then show ?thesis
    using assms(1) by (intro size_t_id) simp_all
qed

lemma div_mult_le_length:
  fixes n c :: nat
  assumes "n \<le> m"
  shows "n div c * c \<le> m"
  using assms by (meson div_times_less_eq_dividend le_trans)

lemma linearUpsample_correct:
  assumes chs: "0 < channels (config r)" and rt: "0 < ratio r"
    and nf: "2 \<le> num_samples div nat (channels (config r))"
    and len: "num_samples \<le> length input" and fit: "length input < 2 ^ 64"
    and ofit: "nat \<lceil>real (num_samples div nat (channels (config r))) * ratio r\<rceil>
                 * nat (channels (config r)) < 2 ^ 64"
  shows "\<exists>outp. linearUpsample r input num_samples = Inr outp
           \<and> length outp = nat \<lceil>real (num_samples div nat (channels (config r))) * ratio r\<rceil>
                             * nat (channels (config r))
           \<and> (\<forall>ch<nat (channels (config r)).
                \<forall>i<nat \<lceil>real (num_samples div nat (channels (config r))) * ratio r\<rceil>.
                  outp ! (i * nat (channels (config r)) + ch) =
                    spec_upsample (ratio r) (num_samples div nat (channels (config r)))
                      (nat (channels (config r))) input ch i)"
proof -
  let ?c = "nat (channels (config r))"
  let ?nf = "num_samples div ?c"
  let ?of = "nat \<lceil>real ?nf * ratio r\<rceil>"
  have flen: "?nf * ?c \<le> length input" using len by (rule div_mult_le_length)
  have "?c \<le> ?nf * ?c" using nf by (cases ?nf) simp_all
  then have "?c \<le> length input" using flen by (rule le_trans)
  then have sc: "size_t (channels (config r)) = ?c"
    using chs fit by (intro size_t_channels[where n = "length input"])
  have smp: "upsample_sample r input ?nf c j = Inr (spec_upsample (ratio r) ?nf ?c input c j)"
    if "c < ?c" for c j
    using nf chs _ flen fit rt by (rule upsample_sample_value) (use that in simp)
  from linear_loops_correct[OF chs ofit, of "upsample_sample r input ?nf"
      "\<lambda>c j. spec_upsample (ratio r) ?nf ?c input c j"] smp
  show ?thesis
    unfolding linearUpsample_def Let_def sc static_cast_size_t_ceiling by blast
qed









section \<open>Safety of the reads of the upsample loop\<close>

text \<open>
  Claim C10. For an input block of at least two frames, the two frame indices read by the
  scalar upsample loop after the clamp, \<open>src_idx\<close> and \<open>src_idx + 1\<close>, are at most
  \<open>num_frames - 1\<close>, both flat reads lie inside the input, and the loop body returns a
  sample, whatever the ratio and the output index are. The two frames are needed: with
  one frame the clamp \<open>num_frames - 2\<close>, computed on the unsigned type, wraps to
  \<open>2 ^ 64 - 1\<close> and the first read is outside the input.
\<close>

theorem upsample_reads_in_bounds:
  "(2 \<le> num_frames \<and> 0 < channels (config r) \<and> int ch < channels (config r)
      \<and> num_frames * nat (channels (config r)) \<le> length input \<longrightarrow>
        fst (upsample_index num_frames (ratio r) i) + 1 \<le> num_frames - 1
      \<and> size_t (int (fst (upsample_index num_frames (ratio r) i)) * channels (config r) + int ch)
            < length input
      \<and> size_t ((int (fst (upsample_index num_frames (ratio r) i)) + 1) * channels (config r)
                  + int ch) < length input
      \<and> (\<exists>v. upsample_sample r input num_frames ch i = Inr v))
   \<and> upsample_index 1 (ratio r) i = (2 ^ 64 - 1, 1)
   \<and> (0 < channels (config r) \<and> int ch < channels (config r)
      \<and> int (length input) + channels (config r) \<le> 2 ^ 64 \<longrightarrow>
        upsample_sample r input 1 ch i = Inl OutOfBounds)"
proof (intro conjI impI)
  assume a: "2 \<le> num_frames \<and> 0 < channels (config r) \<and> int ch < channels (config r)
      \<and> num_frames * nat (channels (config r)) \<le> length input"
  then have h: "2 \<le> num_frames" "0 < channels (config r)" "int ch < channels (config r)"
    "num_frames * nat (channels (config r)) \<le> length input"
    by simp_all
  show "fst (upsample_index num_frames (ratio r) i) + 1 \<le> num_frames - 1"
    using upsample_index_le[OF h(1), of "ratio r" i] h(1) by simp
  show "size_t (int (fst (upsample_index num_frames (ratio r) i)) * channels (config r) + int ch)
            < length input"
    using h by (rule upsample_sample_in_bounds(1))
  show "size_t ((int (fst (upsample_index num_frames (ratio r) i)) + 1) * channels (config r)
                  + int ch) < length input"
    using h by (rule upsample_sample_in_bounds(2))
  show "\<exists>v. upsample_sample r input num_frames ch i = Inr v"
    using h by (rule upsample_sample_returns)
next
  show "upsample_index 1 (ratio r) i = (2 ^ 64 - 1, 1)"
    by (rule upsample_index_one)
next
  assume "0 < channels (config r) \<and> int ch < channels (config r)
      \<and> int (length input) + channels (config r) \<le> 2 ^ 64"
  then show "upsample_sample r input 1 ch i = Inl OutOfBounds"
    using upsample_sample_one_frame[of r ch input i] by simp
qed

theorem upsample_reads_in_bounds_witness:
  "(2::nat) \<le> 4 \<and> 0 < channels (config up_8k_16k) \<and> int 0 < channels (config up_8k_16k)
   \<and> 4 * nat (channels (config up_8k_16k)) \<le> length [0, 1, 2, 3 :: real]
   \<and> fst (upsample_index 4 (ratio up_8k_16k) 7) + 1 \<le> 4 - 1
   \<and> (\<exists>v. upsample_sample up_8k_16k [0, 1, 2, 3] 4 0 7 = Inr v)
   \<and> int (length [5 :: real]) + channels (config up_8k_16k) \<le> 2 ^ 64
   \<and> upsample_sample up_8k_16k [5] 1 0 0 = Inl OutOfBounds"
  using upsample_reads_in_bounds[of 4 up_8k_16k 0 "[0, 1, 2, 3]" 7]
    upsample_reads_in_bounds[of 4 up_8k_16k 0 "[5]" 0]
  by (simp add: up_8k_16k_def new_Resampler_def)

text \<open>
  The vectorised variant returns the zero-filled output for fewer than two frames, before
  its loops run; the scalar function has no such guard and faults on a block of one frame.
\<close>

lemma linearUpsample_RVV_guard:
  assumes "num_samples div size_t (channels (config r)) < 2"
  shows "linearUpsample_RVV r vector_loops input num_samples =
     Inr (replicate (size_t (int (static_cast_size_t (real_of_int
            \<lceil>real (num_samples div size_t (channels (config r))) * ratio r\<rceil>))
          * channels (config r))) 0)"
  using assms by (simp add: linearUpsample_RVV_def Let_def)

lemma linearUpsample_one_frame_faults:
  "linearUpsample up_8k_16k [5] 1 = Inl OutOfBounds"
proof -
  have s: "upsample_sample up_8k_16k [5] (Suc 0) 0 0 = Inl OutOfBounds"
    using upsample_sample_one_frame[of up_8k_16k 0 "[5]" 0]
    by (simp add: up_8k_16k_def new_Resampler_def)
  have c: "channels (config up_8k_16k) = 1" "ratio up_8k_16k = 2"
    by (simp_all add: up_8k_16k_def new_Resampler_def)
  show ?thesis
    unfolding linearUpsample_def Let_def c
    by (subst channels_loop.simps, subst frames_loop.simps)
      (simp add: s size_t_def static_cast_size_t_def trunc_to_int_def)
qed

section \<open>The size of the output of the conversion\<close>






lemma initialize_configured: "configured r \<Longrightarrow> initialize r = (True, r)"
  by (simp add: configured_def initialize_def)


lemma process_ptr_configured:
  assumes "configured r"
  shows "process_ptr r input n =
     (if n = 0 then (Inr [], r)
      else if input_sample_rate (config r) = output_sample_rate (config r)
        then (copy_range input n, r)
      else if method (config r) = LINEAR_UPSAMPLE
              \<or> (method (config r) \<noteq> LINEAR_DOWNSAMPLE \<and> 1 < ratio r)
        then (linearUpsample r input n, r)
      else (linearDownsample r input n, r))"
  using assms
  by (cases "method (config r)") (simp_all add: process_ptr_def configured_def)








section \<open>The fixed-capacity entry point\<close>

lemma static_cast_int_small: "n < 2 ^ 31 \<Longrightarrow> static_cast_int n = int n"
  by (simp add: static_cast_int_def Let_def)

text \<open>
  As long as the result has fewer than \<open>2 ^ 31\<close> samples, \<open>resampler_process\<close> does
  what its interface promises: a result larger than the capacity gives \<open>-1\<close> and leaves
  the output as it was, a result that fits is copied in full and its length is returned.
\<close>

lemma resampler_process_fits_int:
  assumes "resampler h = Some r" and "0 < input_samples"
    and "process_ptr r inp (size_t input_samples) = (Inr result, r1)"
    and "length result < 2 ^ 31"
  shows "resampler_process (Some h) (Some inp) input_samples (Some outp) output_capacity =
     (if output_capacity < int (length result)
      then Inr (- 1, Some outp, Some (h\<lparr>resampler := Some r1\<rparr>))
      else if length result \<le> length outp
      then Inr (int (length result), Some (result @ drop (length result) outp),
                Some (h\<lparr>resampler := Some r1\<rparr>))
      else Inl OutOfBounds)"
  using assms
  by (simp add: resampler_process_def static_cast_int_small copy_to_def)

lemma resampler_create_linear:
  assumes "0 < input_rate" and "0 < output_rate" and "0 < chs"
  shows "\<exists>r. resampler_create input_rate output_rate chs m = Some \<lparr>resampler = Some r\<rparr>
           \<and> configured r
           \<and> config r = \<lparr>input_sample_rate = input_rate, output_sample_rate = output_rate,
                  channels = chs,
                  method = (if 1 < real_of_int output_rate / real_of_int input_rate
                            then LINEAR_UPSAMPLE else LINEAR_DOWNSAMPLE)\<rparr>"
  using assms
  by (cases m)
    (simp_all add: resampler_create_def methodCToCpp_def initialize_def new_Resampler_def
      configured_def Let_def)

text \<open>
  Claim C8 at an input where the code departs from it. The comparison with the capacity is
  made after \<^verbatim>\<open>static_cast<int>(result.size())\<close>. Upsampling \<open>2 ^ 30\<close> mono samples
  from 8000 Hz to 16000 Hz gives \<open>2 ^ 31\<close> samples, which the conversion turns into
  \<open>- 2 ^ 31\<close>; the test against a capacity of 16 does not fire and the copy into the
  16-sample buffer runs out of bounds, where the claim demands the sentinel and no write.
\<close>

theorem resampler_process_int_narrowing:
  "resampler_process (resampler_create 8000 16000 1 RESAMPLE_METHOD_LINEAR)
     (Some large_block) (2 ^ 30) (Some (replicate 16 0)) 16 = Inl OutOfBounds"
proof -
  from resampler_create_linear[of 8000 16000 1 RESAMPLE_METHOD_LINEAR]
  obtain r where
    h: "resampler_create 8000 16000 1 RESAMPLE_METHOD_LINEAR = Some \<lparr>resampler = Some r\<rparr>"
    and cf: "configured r"
    and c: "config r = \<lparr>input_sample_rate = 8000, output_sample_rate = 16000,
                  channels = 1, method = LINEAR_UPSAMPLE\<rparr>"
    by auto
  have rr: "ratio r = 2" using cf c by (simp add: configured_def)
  have ll: "length large_block = 2 ^ 30" by (simp add: large_block_def)
  have hyp: "0 < channels (config r)" "0 < ratio r"
    "2 \<le> 2 ^ 30 div nat (channels (config r))"
    "2 ^ 30 \<le> length large_block" "length large_block < 2 ^ 64"
    "nat \<lceil>real (2 ^ 30 div nat (channels (config r))) * ratio r\<rceil>
       * nat (channels (config r)) < 2 ^ 64"
    by (simp_all add: c rr ll)
  from linearUpsample_correct[OF hyp]
  obtain result where u: "linearUpsample r large_block (2 ^ 30) = Inr result"
    and l: "length result = 2 ^ 31"
    by (auto simp: c rr)
  have sz: "size_t (2 ^ 30) = 2 ^ 30" by (simp add: size_t_def)
  have p: "process_ptr r large_block (size_t (2 ^ 30)) = (Inr result, r)"
    unfolding sz process_ptr_configured[OF cf] using u by (simp add: c)
  have ci: "static_cast_int (length result) = - (2 ^ 31)"
    unfolding l by (simp add: static_cast_int_def Let_def)
  show ?thesis
    unfolding h using p ci l by (simp add: resampler_process_def copy_to_def)
qed

text \<open>
  Claim C9, as the code has it. \<open>process\<close> on an input of length zero returns the empty
  output, on every resampler, and reports no error. The fixed-capacity entry point
  \<open>resampler_process\<close> answers every \<open>input_samples \<le> 0\<close> with the error sentinel
  \<open>-1\<close>, leaving the output buffer and the handle as they were.
\<close>

theorem zero_length_input:
  "fst (process r []) = Inr []
   \<and> fst (process_ptr r input 0) = Inr []
   \<and> (input_samples \<le> 0 \<longrightarrow>
        resampler_process handle input_ptr input_samples output_ptr output_capacity
          = Inr (- 1, output_ptr, handle))"
proof (intro conjI impI)
  show z: "fst (process_ptr r input 0) = Inr []"
    by (simp add: process_ptr_def split_beta)
  show "fst (process r []) = Inr []"
    by (simp add: process_def process_ptr_def split_beta)
next
  assume "input_samples \<le> 0"
  then show "resampler_process handle input_ptr input_samples output_ptr output_capacity
          = Inr (- 1, output_ptr, handle)"
    by (simp add: resampler_process_def split: option.splits)
qed

text \<open>
  Claim C9, as the specification words it, fails at the fixed-capacity entry point: with a
  valid handle, valid buffers and \<open>input_samples = 0\<close> the call returns \<open>-1\<close>, the value
  it returns on every error.
\<close>

theorem zero_length_input_error_counterexample:
  "resampler_process (resampler_create 16000 48000 1 RESAMPLE_METHOD_LINEAR)
     (Some []) 0 (Some [0, 0]) 2
   = Inr (- 1, Some [0, 0], resampler_create 16000 48000 1 RESAMPLE_METHOD_LINEAR)"
  by (simp add: resampler_process_def split: option.splits)

theorem zero_length_input_witness:
  "fst (process up_8k_16k []) = Inr []
   \<and> (0::int) \<le> 0
   \<and> resampler_process (resampler_create 16000 48000 1 RESAMPLE_METHOD_LINEAR)
        (Some []) 0 (Some [0, 0]) 2
      = Inr (- 1, Some [0, 0], resampler_create 16000 48000 1 RESAMPLE_METHOD_LINEAR)"
  using zero_length_input[of up_8k_16k "[]" 0
      "resampler_create 16000 48000 1 RESAMPLE_METHOD_LINEAR" "Some []" "Some [0, 0]" 2]
  by simp

end
